theory Spec2Isabelle
  imports Main
begin

section \<open>The events loader of gomatrixserverlib (load.go)\<close>

text \<open>
  \<^verbatim>\<open>load.go\<close> holds one type, \<^verbatim>\<open>EventLoadResult\<close>, one struct of collaborators,
  \<^verbatim>\<open>EventsLoader\<close>, with its constructor, and one method, \<^verbatim>\<open>LoadAndVerify\<close>. The method
  calls five functions
  of the package that live in other files: \<^verbatim>\<open>NewEventFromUntrustedJSON\<close>,
  \<^verbatim>\<open>VerifyEventSignatures\<close>, \<^verbatim>\<open>Event.Headered\<close>, \<^verbatim>\<open>VerifyEventAuthChain\<close> and
  \<^verbatim>\<open>VerifyAuthRulesAtState\<close> (with \<^verbatim>\<open>HeaderedEvent.EventID\<close>). They are parameters of
  the model, so every theorem below holds for all of their implementations.
\<close>

subsection \<open>Data\<close>

text \<open>\<^verbatim>\<open>json.RawMessage\<close> is a byte slice.\<close>

type_synonym RawMessage = string

text \<open>
  \<^verbatim>\<open>type EventLoadResult struct { Event *HeaderedEvent; Error error; SoftFail bool }\<close>.
  A nil pointer and a nil error are \<open>None\<close>.
\<close>

record ('h, 'e) EventLoadResult =
  Event :: "'h option"
  Error :: "'e option"
  SoftFail :: bool

text \<open>The fields of \<^verbatim>\<open>EventsLoader\<close>, in the order of the source.\<close>

record ('rv, 'kr, 'ap, 'sp) EventsLoader =
  roomVer :: 'rv
  keyRing :: 'kr
  provider :: 'ap
  stateProvider :: 'sp
  performSoftFailCheck :: bool

text \<open>
  \<^verbatim>\<open>NewEventsLoader(roomVer, keyRing, stateProvider, provider, performSoftFailCheck)\<close>
  fills the fields from its arguments.
\<close>

definition NewEventsLoader ::
  "'rv \<Rightarrow> 'kr \<Rightarrow> 'sp \<Rightarrow> 'ap \<Rightarrow> bool \<Rightarrow> ('rv, 'kr, 'ap, 'sp) EventsLoader" where
  "NewEventsLoader rv kr sp ap flag =
     \<lparr>roomVer = rv, keyRing = kr, provider = ap, stateProvider = sp, performSoftFailCheck = flag\<rparr>"

text \<open>
  The error of the whole call is either the error that \<^verbatim>\<open>VerifyEventSignatures\<close>
  returned, handed on unchanged, or the \<^verbatim>\<open>fmt.Errorf\<close> of line 65, which carries
  \<^verbatim>\<open>len(failures)\<close> and \<^verbatim>\<open>len(events)\<close>.
\<close>

datatype 'e call_error =
  Collaborator 'e
| LengthMismatch nat nat

text \<open>
  The functions of the package that \<^verbatim>\<open>LoadAndVerify\<close> calls and that are defined
  outside \<^verbatim>\<open>load.go\<close>. The three verifiers take the context and may do network and
  disk input and output: they read and change a world \<open>'w\<close>, which also holds
  whatever the context's cancellation depends on. A Go pair \<^verbatim>\<open>(value, error)\<close> whose
  value is only read when the error is nil is a sum, \<open>Inl\<close> the error.
  The parser takes no context and is a function of the message and the room version;
  \<^verbatim>\<open>Headered\<close> and \<^verbatim>\<open>EventID\<close> are accessors. \<open>zeroEvent\<close> is the zero value of
  the struct \<^verbatim>\<open>Event\<close>, which \<^verbatim>\<open>make([]Event, n)\<close> fills the slice with.
  Every one of them is taken to return: a collaborator that panics or never
  returns is outside the model.
\<close>

record ('ctx, 'rv, 'kr, 'ap, 'sp, 'ev, 'h, 'id, 'e, 'w) externals =
  NewEventFromUntrustedJSON :: "RawMessage \<Rightarrow> 'rv \<Rightarrow> 'e + 'ev"
  VerifyEventSignatures :: "'ctx \<Rightarrow> 'ev list \<Rightarrow> 'kr \<Rightarrow> 'w \<Rightarrow> ('e + 'e option list) \<times> 'w"
  Headered :: "'ev \<Rightarrow> 'rv \<Rightarrow> 'h"
  EventID :: "'h \<Rightarrow> 'id"
  VerifyEventAuthChain :: "'ctx \<Rightarrow> 'h \<Rightarrow> 'ap \<Rightarrow> 'w \<Rightarrow> 'e option \<times> 'w"
  VerifyAuthRulesAtState :: "'ctx \<Rightarrow> 'sp \<Rightarrow> 'h \<Rightarrow> 'id \<Rightarrow> bool \<Rightarrow> 'w \<Rightarrow> 'e option \<times> 'w"
  zeroEvent :: 'ev

subsection \<open>LoadAndVerify\<close>

text \<open>The zero value of \<^verbatim>\<open>EventLoadResult\<close>, which \<^verbatim>\<open>make\<close> fills \<^verbatim>\<open>results\<close> with.\<close>

definition zeroResult :: "('h, 'e) EventLoadResult" where
  "zeroResult = \<lparr>Event = None, Error = None, SoftFail = False\<rparr>"

text \<open>
  The body of the first loop (lines 48 to 58) at index \<open>i\<close>: a parse error is
  stored in \<^verbatim>\<open>results[i]\<close> and \<^verbatim>\<open>events[i]\<close> keeps its zero value; a parsed event
  is stored in \<^verbatim>\<open>events[i]\<close>.
\<close>

definition parseOne ::
  "('ctx, 'rv, 'kr, 'ap, 'sp, 'ev, 'h, 'id, 'e, 'w) externals \<Rightarrow> ('rv, 'kr, 'ap, 'sp) EventsLoader \<Rightarrow>
   RawMessage list \<Rightarrow> nat \<Rightarrow> ('h, 'e) EventLoadResult list \<times> 'ev list \<Rightarrow>
   ('h, 'e) EventLoadResult list \<times> 'ev list" where
  "parseOne x l rawEvents i = (\<lambda>(results, events).
     (case NewEventFromUntrustedJSON x (rawEvents ! i) (roomVer l) of
        Inl err \<Rightarrow> (results[i := \<lparr>Event = None, Error = Some err, SoftFail = False\<rparr>], events)
      | Inr event \<Rightarrow> (results, events[i := event])))"

text \<open>
  The body of the second loop (lines 67 to 99) at index \<open>i\<close>. Each of the three
  checks has the shape
  \<^verbatim>\<open>if err != nil { if results[i].Error == nil { results[i] = ...; continue } }\<close>:
  the \<^verbatim>\<open>continue\<close> is inside the inner \<^verbatim>\<open>if\<close>, so control leaves the iteration only
  when both conditions hold and falls through to the next check otherwise.
  The state check is called with the literal \<^verbatim>\<open>true\<close>.
\<close>

definition verifyOne ::
  "('ctx, 'rv, 'kr, 'ap, 'sp, 'ev, 'h, 'id, 'e, 'w) externals \<Rightarrow> ('rv, 'kr, 'ap, 'sp) EventsLoader \<Rightarrow>
   'ctx \<Rightarrow> 'ev list \<Rightarrow> 'e option list \<Rightarrow> nat \<Rightarrow> ('h, 'e) EventLoadResult list \<times> 'w \<Rightarrow>
   ('h, 'e) EventLoadResult list \<times> 'w" where
  "verifyOne x l ctx events failures i = (\<lambda>(results, w).
     if failures ! i \<noteq> None \<and> Error (results ! i) = None
     then (results[i := \<lparr>Event = None, Error = failures ! i, SoftFail = False\<rparr>], w)
     else
       let h = Headered x (events ! i) (roomVer l);
           (err, w1) = VerifyEventAuthChain x ctx h (provider l) w
       in if err \<noteq> None \<and> Error (results ! i) = None
          then (results[i := \<lparr>Event = None, Error = err, SoftFail = False\<rparr>], w1)
          else
            let (err', w2) = VerifyAuthRulesAtState x ctx (stateProvider l) h (EventID x h) True w1
            in if err' \<noteq> None \<and> Error (results ! i) = None
               then (results[i := \<lparr>Event = None, Error = err', SoftFail = False\<rparr>], w2)
               else (results[i := \<lparr>Event = Some h, Error = None, SoftFail = False\<rparr>], w2))"

text \<open>
  The method. \<^verbatim>\<open>for i := range\<close> visits the indices \<open>0, ..., n - 1\<close> in order.
  The flag \<^verbatim>\<open>performSoftFailCheck\<close> is not read (line 101 is a TODO comment).
\<close>

definition LoadAndVerify ::
  "('ctx, 'rv, 'kr, 'ap, 'sp, 'ev, 'h, 'id, 'e, 'w) externals \<Rightarrow> ('rv, 'kr, 'ap, 'sp) EventsLoader \<Rightarrow>
   'ctx \<Rightarrow> RawMessage list \<Rightarrow> 'w \<Rightarrow> ('e call_error + ('h, 'e) EventLoadResult list) \<times> 'w" where
  "LoadAndVerify x l ctx rawEvents w =
     (let (results, events) =
            fold (parseOne x l rawEvents) [0..<length rawEvents]
              (replicate (length rawEvents) zeroResult, replicate (length rawEvents) (zeroEvent x));
          (sigs, w1) = VerifyEventSignatures x ctx events (keyRing l) w
      in case sigs of
           Inl err \<Rightarrow> (Inl (Collaborator err), w1)
         | Inr failures \<Rightarrow>
             if length failures \<noteq> length events
             then (Inl (LengthMismatch (length failures) (length events)), w1)
             else
               let (results', w2) =
                     fold (verifyOne x l ctx events failures) [0..<length events] (results, w1)
               in (Inr results', w2))"

subsection \<open>Positions\<close>

text \<open>
  What the first loop leaves at one position: the event handed to the signature
  check (the parsed event, or the zero value when parsing failed), and the entry of
  \<^verbatim>\<open>results\<close> (the parse error, or the zero value).
\<close>

definition eventOrZero ::
  "('ctx, 'rv, 'kr, 'ap, 'sp, 'ev, 'h, 'id, 'e, 'w) externals \<Rightarrow> ('rv, 'kr, 'ap, 'sp) EventsLoader \<Rightarrow>
   RawMessage \<Rightarrow> 'ev" where
  "eventOrZero x l raw =
     (case NewEventFromUntrustedJSON x raw (roomVer l) of
        Inl err \<Rightarrow> zeroEvent x
      | Inr event \<Rightarrow> event)"

definition parseSlot ::
  "('ctx, 'rv, 'kr, 'ap, 'sp, 'ev, 'h, 'id, 'e, 'w) externals \<Rightarrow> ('rv, 'kr, 'ap, 'sp) EventsLoader \<Rightarrow>
   RawMessage \<Rightarrow> ('h, 'e) EventLoadResult" where
  "parseSlot x l raw =
     (case NewEventFromUntrustedJSON x raw (roomVer l) of
        Inl err \<Rightarrow> \<lparr>Event = None, Error = Some err, SoftFail = False\<rparr>
      | Inr event \<Rightarrow> zeroResult)"

text \<open>
  The body of the second loop seen from one position: it reads \<^verbatim>\<open>events[i]\<close>,
  \<^verbatim>\<open>failures[i]\<close> and \<^verbatim>\<open>results[i]\<close> only, and writes \<^verbatim>\<open>results[i]\<close> only
  (lemma \<open>verifyOne_slot\<close>).
\<close>

definition verifySlot ::
  "('ctx, 'rv, 'kr, 'ap, 'sp, 'ev, 'h, 'id, 'e, 'w) externals \<Rightarrow> ('rv, 'kr, 'ap, 'sp) EventsLoader \<Rightarrow>
   'ctx \<Rightarrow> 'ev \<Rightarrow> 'e option \<Rightarrow> ('h, 'e) EventLoadResult \<Rightarrow> 'w \<Rightarrow> ('h, 'e) EventLoadResult \<times> 'w" where
  "verifySlot x l ctx event failure r w =
     (if failure \<noteq> None \<and> Error r = None
      then (\<lparr>Event = None, Error = failure, SoftFail = False\<rparr>, w)
      else
        let h = Headered x event (roomVer l);
            (err, w1) = VerifyEventAuthChain x ctx h (provider l) w
        in if err \<noteq> None \<and> Error r = None
           then (\<lparr>Event = None, Error = err, SoftFail = False\<rparr>, w1)
           else
             let (err', w2) = VerifyAuthRulesAtState x ctx (stateProvider l) h (EventID x h) True w1
             in if err' \<noteq> None \<and> Error r = None
                then (\<lparr>Event = None, Error = err', SoftFail = False\<rparr>, w2)
                else (\<lparr>Event = Some h, Error = None, SoftFail = False\<rparr>, w2))"

text \<open>
  The call of line 60 as \<^verbatim>\<open>LoadAndVerify\<close> makes it, and the verdicts it returned
  (none when it returned an error).
\<close>

definition sigCall ::
  "('ctx, 'rv, 'kr, 'ap, 'sp, 'ev, 'h, 'id, 'e, 'w) externals \<Rightarrow> ('rv, 'kr, 'ap, 'sp) EventsLoader \<Rightarrow>
   'ctx \<Rightarrow> RawMessage list \<Rightarrow> 'w \<Rightarrow> ('e + 'e option list) \<times> 'w" where
  "sigCall x l ctx rawEvents w =
     VerifyEventSignatures x ctx (map (eventOrZero x l) rawEvents) (keyRing l) w"

definition sigVerdicts ::
  "('ctx, 'rv, 'kr, 'ap, 'sp, 'ev, 'h, 'id, 'e, 'w) externals \<Rightarrow> ('rv, 'kr, 'ap, 'sp) EventsLoader \<Rightarrow>
   'ctx \<Rightarrow> RawMessage list \<Rightarrow> 'w \<Rightarrow> 'e option list" where
  "sigVerdicts x l ctx rawEvents w =
     (case fst (sigCall x l ctx rawEvents w) of Inl err \<Rightarrow> [] | Inr failures \<Rightarrow> failures)"

text \<open>
  The world in which iteration \<open>i\<close> of the second loop starts: the one the
  signature check left, changed by the iterations \<open>0, ..., i - 1\<close>.
\<close>

definition worldBefore ::
  "('ctx, 'rv, 'kr, 'ap, 'sp, 'ev, 'h, 'id, 'e, 'w) externals \<Rightarrow> ('rv, 'kr, 'ap, 'sp) EventsLoader \<Rightarrow>
   'ctx \<Rightarrow> RawMessage list \<Rightarrow> 'w \<Rightarrow> nat \<Rightarrow> 'w" where
  "worldBefore x l ctx rawEvents w i =
     snd (fold (verifyOne x l ctx (map (eventOrZero x l) rawEvents) (sigVerdicts x l ctx rawEvents w))
            [0..<i] (map (parseSlot x l) rawEvents, snd (sigCall x l ctx rawEvents w)))"

text \<open>
  The headered event of position \<open>i\<close> (line 76), and the two calls iteration \<open>i\<close>
  makes with it when it reaches them (lines 78 and 88): the verdict and the world
  each returns.
\<close>

definition headerAt ::
  "('ctx, 'rv, 'kr, 'ap, 'sp, 'ev, 'h, 'id, 'e, 'w) externals \<Rightarrow> ('rv, 'kr, 'ap, 'sp) EventsLoader \<Rightarrow>
   RawMessage list \<Rightarrow> nat \<Rightarrow> 'h" where
  "headerAt x l rawEvents i = Headered x (eventOrZero x l (rawEvents ! i)) (roomVer l)"

definition chainCallAt ::
  "('ctx, 'rv, 'kr, 'ap, 'sp, 'ev, 'h, 'id, 'e, 'w) externals \<Rightarrow> ('rv, 'kr, 'ap, 'sp) EventsLoader \<Rightarrow>
   'ctx \<Rightarrow> RawMessage list \<Rightarrow> 'w \<Rightarrow> nat \<Rightarrow> 'e option \<times> 'w" where
  "chainCallAt x l ctx rawEvents w i =
     VerifyEventAuthChain x ctx (headerAt x l rawEvents i) (provider l)
       (worldBefore x l ctx rawEvents w i)"

definition stateCallAt ::
  "('ctx, 'rv, 'kr, 'ap, 'sp, 'ev, 'h, 'id, 'e, 'w) externals \<Rightarrow> ('rv, 'kr, 'ap, 'sp) EventsLoader \<Rightarrow>
   'ctx \<Rightarrow> RawMessage list \<Rightarrow> 'w \<Rightarrow> nat \<Rightarrow> 'e option \<times> 'w" where
  "stateCallAt x l ctx rawEvents w i =
     VerifyAuthRulesAtState x ctx (stateProvider l) (headerAt x l rawEvents i)
       (EventID x (headerAt x l rawEvents i)) True (snd (chainCallAt x l ctx rawEvents w i))"

text \<open>
  What the second loop writes at position \<open>i\<close>: its body run on the \<open>i\<close>-th raw
  message's event and parse result and on the \<open>i\<close>-th signature verdict.
\<close>

definition outcomeAt ::
  "('ctx, 'rv, 'kr, 'ap, 'sp, 'ev, 'h, 'id, 'e, 'w) externals \<Rightarrow> ('rv, 'kr, 'ap, 'sp) EventsLoader \<Rightarrow>
   'ctx \<Rightarrow> RawMessage list \<Rightarrow> 'w \<Rightarrow> nat \<Rightarrow> ('h, 'e) EventLoadResult" where
  "outcomeAt x l ctx rawEvents w i =
     fst (verifySlot x l ctx (eventOrZero x l (rawEvents ! i)) (sigVerdicts x l ctx rawEvents w ! i)
            (parseSlot x l (rawEvents ! i)) (worldBefore x l ctx rawEvents w i))"

subsection \<open>The calls a run makes\<close>

text \<open>
  One entry per call of a verifier, with the arguments of the call. \<open>traced x\<close>
  behaves as \<open>x\<close> and appends every call to a log kept beside the world, so
  \<open>callsOf\<close> is the sequence of verifier calls of one run of \<^verbatim>\<open>LoadAndVerify\<close>.
\<close>

datatype ('ctx, 'kr, 'ap, 'sp, 'ev, 'h, 'id) call =
  SigCall 'ctx "'ev list" 'kr
| ChainCall 'ctx 'h 'ap
| StateCall 'ctx 'sp 'h 'id bool

definition traced ::
  "('ctx, 'rv, 'kr, 'ap, 'sp, 'ev, 'h, 'id, 'e, 'w) externals \<Rightarrow>
   ('ctx, 'rv, 'kr, 'ap, 'sp, 'ev, 'h, 'id, 'e,
    'w \<times> ('ctx, 'kr, 'ap, 'sp, 'ev, 'h, 'id) call list) externals" where
  "traced x =
     \<lparr>NewEventFromUntrustedJSON = NewEventFromUntrustedJSON x,
      VerifyEventSignatures = (\<lambda>ctx events kr (w, log).
         (fst (VerifyEventSignatures x ctx events kr w),
          snd (VerifyEventSignatures x ctx events kr w), log @ [SigCall ctx events kr])),
      Headered = Headered x,
      EventID = EventID x,
      VerifyEventAuthChain = (\<lambda>ctx h ap (w, log).
         (fst (VerifyEventAuthChain x ctx h ap w),
          snd (VerifyEventAuthChain x ctx h ap w), log @ [ChainCall ctx h ap])),
      VerifyAuthRulesAtState = (\<lambda>ctx sp h eid strict (w, log).
         (fst (VerifyAuthRulesAtState x ctx sp h eid strict w),
          snd (VerifyAuthRulesAtState x ctx sp h eid strict w), log @ [StateCall ctx sp h eid strict])),
      zeroEvent = zeroEvent x\<rparr>"

definition callsOf ::
  "('ctx, 'rv, 'kr, 'ap, 'sp, 'ev, 'h, 'id, 'e, 'w) externals \<Rightarrow> ('rv, 'kr, 'ap, 'sp) EventsLoader \<Rightarrow>
   'ctx \<Rightarrow> RawMessage list \<Rightarrow> 'w \<Rightarrow> ('ctx, 'kr, 'ap, 'sp, 'ev, 'h, 'id) call list" where
  "callsOf x l ctx rawEvents w = snd (snd (LoadAndVerify (traced x) l ctx rawEvents (w, [])))"

fun isSigCall :: "('ctx, 'kr, 'ap, 'sp, 'ev, 'h, 'id) call \<Rightarrow> bool" where
  "isSigCall (SigCall ctx events kr) = True"
| "isSigCall (ChainCall ctx h ap) = False"
| "isSigCall (StateCall ctx sp h eid strict) = False"

text \<open>A call made inside the second loop: no signature call, and a state call only in strict mode.\<close>

fun perEventCall :: "('ctx, 'kr, 'ap, 'sp, 'ev, 'h, 'id) call \<Rightarrow> bool" where
  "perEventCall (SigCall ctx events kr) = False"
| "perEventCall (ChainCall ctx h ap) = True"
| "perEventCall (StateCall ctx sp h eid strict) = strict"

subsection \<open>Test doubles\<close>

text \<open>
  Deterministic collaborators for the concrete runs below. A raw message is its own
  event, \<open>''!''\<close> does not parse, and the zero event is the empty string. The
  signature check rejects the zero event and \<open>''u''\<close>, the auth chain check rejects
  \<open>''c''\<close>, the state check rejects \<open>''s''\<close>. The world counts the verifier calls made
  so far, and the context is a deadline on that count: a verifier called at or after
  the deadline returns \<open>Canceled\<close>.
\<close>

datatype stub_error = ParseFailed | BadSignature | NotAuthorised | StateForbids | Canceled

definition stubExternals ::
  "(nat, string, unit, unit, unit, string, string \<times> string, string, stub_error, nat) externals" where
  "stubExternals =
     \<lparr>NewEventFromUntrustedJSON = (\<lambda>raw rv. if raw = ''!'' then Inl ParseFailed else Inr raw),
      VerifyEventSignatures = (\<lambda>ctx events kr w.
         (if ctx \<le> w then Inl Canceled
          else Inr (map (\<lambda>ev. if ev = [] \<or> ev = ''u'' then Some BadSignature else None) events),
          Suc w)),
      Headered = (\<lambda>ev rv. (rv, ev)),
      EventID = (\<lambda>h. CHR ''$'' # snd h),
      VerifyEventAuthChain = (\<lambda>ctx h ap w.
         (if ctx \<le> w then Some Canceled else if snd h = ''c'' then Some NotAuthorised else None,
          Suc w)),
      VerifyAuthRulesAtState = (\<lambda>ctx sp h eid strict w.
         (if ctx \<le> w then Some Canceled else if snd h = ''s'' then Some StateForbids else None,
          Suc w)),
      zeroEvent = []\<rparr>"

text \<open>The same collaborators with a signature check that returns one verdict too few.\<close>

definition stubShort ::
  "(nat, string, unit, unit, unit, string, string \<times> string, string, stub_error, nat) externals" where
  "stubShort = stubExternals
     \<lparr>VerifyEventSignatures := (\<lambda>ctx events kr w. (Inr (replicate (length events - 1) None), Suc w))\<rparr>"

definition stubLoader :: "(string, unit, unit, unit) EventsLoader" where
  "stubLoader = NewEventsLoader ''6'' () () () False"

section \<open>The two loops\<close>

lemma parseOne_length:
  "length (fst (parseOne x l raws i s)) = length (fst s) \<and>
   length (snd (parseOne x l raws i s)) = length (snd s)"
  by (cases s) (simp add: parseOne_def split: sum.splits)

lemma parse_fold_length:
  "length (fst (fold (parseOne x l raws) is s)) = length (fst s) \<and>
   length (snd (fold (parseOne x l raws) is s)) = length (snd s)"
  by (induction "is" arbitrary: s) (simp_all add: parseOne_length)

lemma parseOne_nth:
  "i < length rs \<Longrightarrow> length evs = length rs \<Longrightarrow>
   fst (parseOne x l raws k (rs, evs)) ! i =
     (if i = k
      then (case NewEventFromUntrustedJSON x (raws ! i) (roomVer l) of
              Inl err \<Rightarrow> \<lparr>Event = None, Error = Some err, SoftFail = False\<rparr>
            | Inr event \<Rightarrow> rs ! i)
      else rs ! i) \<and>
   snd (parseOne x l raws k (rs, evs)) ! i =
     (if i = k
      then (case NewEventFromUntrustedJSON x (raws ! i) (roomVer l) of
              Inl err \<Rightarrow> evs ! i
            | Inr event \<Rightarrow> event)
      else evs ! i)"
  by (simp add: parseOne_def nth_list_update split: sum.splits)

lemma parse_fold_nth:
  "i < length (fst s) \<Longrightarrow> length (snd s) = length (fst s) \<Longrightarrow>
   fst (fold (parseOne x l raws) [0..<k] s) ! i =
     (if i < k
      then (case NewEventFromUntrustedJSON x (raws ! i) (roomVer l) of
              Inl err \<Rightarrow> \<lparr>Event = None, Error = Some err, SoftFail = False\<rparr>
            | Inr event \<Rightarrow> fst s ! i)
      else fst s ! i) \<and>
   snd (fold (parseOne x l raws) [0..<k] s) ! i =
     (if i < k
      then (case NewEventFromUntrustedJSON x (raws ! i) (roomVer l) of
              Inl err \<Rightarrow> snd s ! i
            | Inr event \<Rightarrow> event)
      else snd s ! i)"
proof (induction k)
  case 0
  then show ?case by simp
next
  case (Suc k)
  obtain rs evs where st: "fold (parseOne x l raws) [0..<k] s = (rs, evs)"
    by (cases "fold (parseOne x l raws) [0..<k] s")
  have len: "length rs = length (fst s)" "length evs = length (fst s)"
    using parse_fold_length [of x l raws "[0..<k]" s] st Suc.prems by simp_all
  have step: "fold (parseOne x l raws) [0..<Suc k] s = parseOne x l raws k (rs, evs)"
    using st by simp
  have ih:
    "rs ! i =
       (if i < k
        then (case NewEventFromUntrustedJSON x (raws ! i) (roomVer l) of
                Inl err \<Rightarrow> \<lparr>Event = None, Error = Some err, SoftFail = False\<rparr>
              | Inr event \<Rightarrow> fst s ! i)
        else fst s ! i)"
    "evs ! i =
       (if i < k
        then (case NewEventFromUntrustedJSON x (raws ! i) (roomVer l) of
                Inl err \<Rightarrow> snd s ! i
              | Inr event \<Rightarrow> event)
        else snd s ! i)"
    using Suc st by simp_all
  have i: "i < length rs" "length evs = length rs"
    using len Suc.prems by simp_all
  show ?case
    unfolding step using parseOne_nth [OF i, of x l raws k] ih
    by (auto simp add: less_Suc_eq split: sum.splits)
qed

text \<open>The first loop maps the raw messages, position by position.\<close>

lemma parse_fold_eq:
  fixes x :: "('ctx, 'rv, 'kr, 'ap, 'sp, 'ev, 'h, 'id, 'e, 'w) externals"
  shows "fold (parseOne x l raws) [0..<length raws]
           (replicate (length raws) zeroResult, replicate (length raws) (zeroEvent x)) =
         (map (parseSlot x l) raws, map (eventOrZero x l) raws)"
proof -
  let ?s = "(replicate (length raws) (zeroResult :: ('h, 'e) EventLoadResult),
             replicate (length raws) (zeroEvent x))"
  let ?r = "fold (parseOne x l raws) [0..<length raws] ?s"
  have len: "length (fst ?r) = length raws" "length (snd ?r) = length raws"
    using parse_fold_length [of x l raws "[0..<length raws]" ?s] by simp_all
  have a: "fst ?r = map (parseSlot x l) raws"
    using len parse_fold_nth [of _ ?s x l raws "length raws"]
    by (intro nth_equalityI) (auto simp add: parseSlot_def split: sum.splits)
  have b: "snd ?r = map (eventOrZero x l) raws"
    using len parse_fold_nth [of _ ?s x l raws "length raws"]
    by (intro nth_equalityI) (auto simp add: eventOrZero_def split: sum.splits)
  show ?thesis using a b by (simp add: prod_eq_iff)
qed

lemma verifyOne_slot:
  "verifyOne x l ctx events failures i (rs, w) =
     (rs[i := fst (verifySlot x l ctx (events ! i) (failures ! i) (rs ! i) w)],
      snd (verifySlot x l ctx (events ! i) (failures ! i) (rs ! i) w))"
  by (auto simp add: verifyOne_def verifySlot_def Let_def split: prod.splits)

lemma verify_fold_length:
  "length (fst (fold (verifyOne x l ctx events failures) is s)) = length (fst s)"
proof (induction "is" arbitrary: s)
  case Nil
  then show ?case by simp
next
  case (Cons i "is")
  obtain rs w where s: "s = (rs, w)" by (cases s)
  show ?case using Cons [of "verifyOne x l ctx events failures i s"]
    by (simp add: s verifyOne_slot)
qed

text \<open>
  After \<open>k\<close> iterations of the second loop, a position below \<open>k\<close> holds what the body
  made of that position's own entries, and every other position is untouched.
\<close>

lemma verify_fold_nth:
  "i < length rs \<Longrightarrow>
   fst (fold (verifyOne x l ctx events failures) [0..<k] (rs, w)) ! i =
     (if i < k
      then fst (verifySlot x l ctx (events ! i) (failures ! i) (rs ! i)
                  (snd (fold (verifyOne x l ctx events failures) [0..<i] (rs, w))))
      else rs ! i)"
proof (induction k)
  case 0
  then show ?case by simp
next
  case (Suc k)
  obtain rs' w' where st: "fold (verifyOne x l ctx events failures) [0..<k] (rs, w) = (rs', w')"
    by (cases "fold (verifyOne x l ctx events failures) [0..<k] (rs, w)")
  have len: "length rs' = length rs"
    using verify_fold_length [of x l ctx events failures "[0..<k]" "(rs, w)"] st by simp
  have step: "fold (verifyOne x l ctx events failures) [0..<Suc k] (rs, w) =
      verifyOne x l ctx events failures k (rs', w')"
    using st by simp
  have ih: "rs' ! i =
      (if i < k
       then fst (verifySlot x l ctx (events ! i) (failures ! i) (rs ! i)
                   (snd (fold (verifyOne x l ctx events failures) [0..<i] (rs, w))))
       else rs ! i)"
    using Suc st by simp
  show ?case
  proof (cases "i = k")
    case True
    then show ?thesis
      unfolding step verifyOne_slot using ih st len Suc.prems by simp
  next
    case False
    then show ?thesis
      unfolding step verifyOne_slot using ih len Suc.prems by (simp add: less_Suc_eq)
  qed
qed

section \<open>The call as a whole\<close>

lemma LoadAndVerify_unfold:
  "LoadAndVerify x l ctx rawEvents w =
     (case fst (sigCall x l ctx rawEvents w) of
        Inl err \<Rightarrow> (Inl (Collaborator err), snd (sigCall x l ctx rawEvents w))
      | Inr failures \<Rightarrow>
          if length failures \<noteq> length rawEvents
          then (Inl (LengthMismatch (length failures) (length rawEvents)),
                snd (sigCall x l ctx rawEvents w))
          else (Inr (fst (fold (verifyOne x l ctx (map (eventOrZero x l) rawEvents) failures)
                       [0..<length rawEvents]
                       (map (parseSlot x l) rawEvents, snd (sigCall x l ctx rawEvents w)))),
                snd (fold (verifyOne x l ctx (map (eventOrZero x l) rawEvents) failures)
                       [0..<length rawEvents]
                       (map (parseSlot x l) rawEvents, snd (sigCall x l ctx rawEvents w)))))"
  unfolding LoadAndVerify_def parse_fold_eq sigCall_def
  by (simp add: Let_def split: prod.splits sum.splits)

lemma LoadAndVerify_sig_error:
  "fst (sigCall x l ctx rawEvents w) = Inl err \<Longrightarrow>
   LoadAndVerify x l ctx rawEvents w = (Inl (Collaborator err), snd (sigCall x l ctx rawEvents w))"
  by (simp add: LoadAndVerify_unfold)

lemma LoadAndVerify_sig_mismatch:
  "fst (sigCall x l ctx rawEvents w) = Inr failures \<Longrightarrow> length failures \<noteq> length rawEvents \<Longrightarrow>
   LoadAndVerify x l ctx rawEvents w =
     (Inl (LengthMismatch (length failures) (length rawEvents)), snd (sigCall x l ctx rawEvents w))"
  by (simp add: LoadAndVerify_unfold)

lemma LoadAndVerify_results:
  assumes "fst (sigCall x l ctx rawEvents w) = Inr failures"
    and "length failures = length rawEvents"
  shows "\<exists>results. fst (LoadAndVerify x l ctx rawEvents w) = Inr results \<and>
           length results = length rawEvents \<and>
           (\<forall>i<length rawEvents. results ! i = outcomeAt x l ctx rawEvents w i)"
proof -
  let ?f = "fold (verifyOne x l ctx (map (eventOrZero x l) rawEvents) failures)"
  let ?s = "(map (parseSlot x l) rawEvents, snd (sigCall x l ctx rawEvents w))"
  have r: "fst (LoadAndVerify x l ctx rawEvents w) = Inr (fst (?f [0..<length rawEvents] ?s))"
    using assms by (simp add: LoadAndVerify_unfold)
  have len: "length (fst (?f [0..<length rawEvents] ?s)) = length rawEvents"
    by (simp add: verify_fold_length)
  have sv: "sigVerdicts x l ctx rawEvents w = failures"
    using assms by (simp add: sigVerdicts_def)
  have nth: "fst (?f [0..<length rawEvents] ?s) ! i = outcomeAt x l ctx rawEvents w i"
    if "i < length rawEvents" for i
    using that verify_fold_nth [of i "map (parseSlot x l) rawEvents" x l ctx
        "map (eventOrZero x l) rawEvents" failures "length rawEvents"
        "snd (sigCall x l ctx rawEvents w)"]
    by (simp add: outcomeAt_def worldBefore_def sv)
  show ?thesis using r len nth by simp
qed

lemma LoadAndVerify_Inr_iff:
  "(\<exists>results. fst (LoadAndVerify x l ctx rawEvents w) = Inr results) \<longleftrightarrow>
   (\<exists>failures. fst (sigCall x l ctx rawEvents w) = Inr failures \<and> length failures = length rawEvents)"
  by (cases "fst (sigCall x l ctx rawEvents w)") (simp_all add: LoadAndVerify_unfold)

text \<open>The outcome of a position in terms of the verdicts returned for that position.\<close>

lemma outcomeAt_verdicts:
  "outcomeAt x l ctx rawEvents w i =
     (if sigVerdicts x l ctx rawEvents w ! i \<noteq> None \<and> Error (parseSlot x l (rawEvents ! i)) = None
      then \<lparr>Event = None, Error = sigVerdicts x l ctx rawEvents w ! i, SoftFail = False\<rparr>
      else if fst (chainCallAt x l ctx rawEvents w i) \<noteq> None \<and>
              Error (parseSlot x l (rawEvents ! i)) = None
      then \<lparr>Event = None, Error = fst (chainCallAt x l ctx rawEvents w i), SoftFail = False\<rparr>
      else if fst (stateCallAt x l ctx rawEvents w i) \<noteq> None \<and>
              Error (parseSlot x l (rawEvents ! i)) = None
      then \<lparr>Event = None, Error = fst (stateCallAt x l ctx rawEvents w i), SoftFail = False\<rparr>
      else \<lparr>Event = Some (headerAt x l rawEvents i), Error = None, SoftFail = False\<rparr>)"
  by (simp add: outcomeAt_def verifySlot_def chainCallAt_def stateCallAt_def headerAt_def Let_def
      split: prod.splits)

lemma parseSlot_Error:
  "Error (parseSlot x l raw) = None \<longleftrightarrow> (\<exists>event. NewEventFromUntrustedJSON x raw (roomVer l) = Inr event)"
  by (simp add: parseSlot_def zeroResult_def split: sum.splits)

lemma outcomeAt_one_field:
  "(Event (outcomeAt x l ctx rawEvents w i) \<noteq> None \<and> Error (outcomeAt x l ctx rawEvents w i) = None) \<or>
   (Event (outcomeAt x l ctx rawEvents w i) = None \<and> Error (outcomeAt x l ctx rawEvents w i) \<noteq> None)"
  by (simp add: outcomeAt_verdicts)

lemma LoadAndVerify_Inr_nth:
  assumes "fst (LoadAndVerify x l ctx rawEvents w) = Inr results"
  shows "length results = length rawEvents"
    and "i < length rawEvents \<Longrightarrow> results ! i = outcomeAt x l ctx rawEvents w i"
proof -
  obtain failures where
    "fst (sigCall x l ctx rawEvents w) = Inr failures" "length failures = length rawEvents"
    using assms LoadAndVerify_Inr_iff [of x l ctx rawEvents w] by auto
  then have r: "length results = length rawEvents \<and>
      (\<forall>i<length rawEvents. results ! i = outcomeAt x l ctx rawEvents w i)"
    using LoadAndVerify_results [of x l ctx rawEvents w failures] assms by auto
  show "length results = length rawEvents" using r by simp
  show "i < length rawEvents \<Longrightarrow> results ! i = outcomeAt x l ctx rawEvents w i" using r by simp
qed

text \<open>A position that failed parsing always ends as an accepted zero event.\<close>

lemma parse_failure_outcome:
  assumes "NewEventFromUntrustedJSON x (rawEvents ! i) (roomVer l) = Inl err"
  shows "outcomeAt x l ctx rawEvents w i =
           \<lparr>Event = Some (Headered x (zeroEvent x) (roomVer l)), Error = None, SoftFail = False\<rparr>"
  using assms by (simp add: outcomeAt_verdicts parseSlot_def headerAt_def eventOrZero_def)

text \<open>A position that parsed ends with the first error among its three verdicts, or accepted.\<close>

lemma first_error_wins_when_parsed:
  assumes "NewEventFromUntrustedJSON x (rawEvents ! i) (roomVer l) = Inr event"
  shows "outcomeAt x l ctx rawEvents w i =
     (case sigVerdicts x l ctx rawEvents w ! i of
        Some e \<Rightarrow> \<lparr>Event = None, Error = Some e, SoftFail = False\<rparr>
      | None \<Rightarrow>
          (case fst (chainCallAt x l ctx rawEvents w i) of
             Some e \<Rightarrow> \<lparr>Event = None, Error = Some e, SoftFail = False\<rparr>
           | None \<Rightarrow>
               (case fst (stateCallAt x l ctx rawEvents w i) of
                  Some e \<Rightarrow> \<lparr>Event = None, Error = Some e, SoftFail = False\<rparr>
                | None \<Rightarrow> \<lparr>Event = Some (Headered x event (roomVer l)), Error = None,
                            SoftFail = False\<rparr>)))"
  using assms
  by (simp add: outcomeAt_verdicts parseSlot_def zeroResult_def headerAt_def eventOrZero_def
      split: option.splits)

text \<open>
  Two runs agree at a position when the parser, the header and the three verdicts
  agree there.
\<close>

lemma outcomeAt_cong:
  assumes "NewEventFromUntrustedJSON x' (rawEvents' ! j) (roomVer l') =
           NewEventFromUntrustedJSON x (rawEvents ! i) (roomVer l)"
    and "headerAt x' l' rawEvents' j = headerAt x l rawEvents i"
    and "sigVerdicts x' l' ctx' rawEvents' w' ! j = sigVerdicts x l ctx rawEvents w ! i"
    and "fst (chainCallAt x' l' ctx' rawEvents' w' j) = fst (chainCallAt x l ctx rawEvents w i)"
    and "fst (stateCallAt x' l' ctx' rawEvents' w' j) = fst (stateCallAt x l ctx rawEvents w i)"
  shows "outcomeAt x' l' ctx' rawEvents' w' j = outcomeAt x l ctx rawEvents w i"
  using assms by (simp add: outcomeAt_verdicts parseSlot_def)

section \<open>Traced runs\<close>

lemma traced_pure:
  "NewEventFromUntrustedJSON (traced x) = NewEventFromUntrustedJSON x"
  "Headered (traced x) = Headered x"
  "EventID (traced x) = EventID x"
  "zeroEvent (traced x) = zeroEvent x"
  by (simp_all add: traced_def)

lemma traced_calls:
  "VerifyEventSignatures (traced x) ctx events kr (w, log) =
     (fst (VerifyEventSignatures x ctx events kr w),
      snd (VerifyEventSignatures x ctx events kr w), log @ [SigCall ctx events kr])"
  "VerifyEventAuthChain (traced x) ctx h ap (w, log) =
     (fst (VerifyEventAuthChain x ctx h ap w),
      snd (VerifyEventAuthChain x ctx h ap w), log @ [ChainCall ctx h ap])"
  "VerifyAuthRulesAtState (traced x) ctx sp h eid strict (w, log) =
     (fst (VerifyAuthRulesAtState x ctx sp h eid strict w),
      snd (VerifyAuthRulesAtState x ctx sp h eid strict w), log @ [StateCall ctx sp h eid strict])"
  by (simp_all add: traced_def)

lemma traced_eventOrZero: "eventOrZero (traced x) l = eventOrZero x l"
  by (rule ext) (simp add: eventOrZero_def traced_pure split: sum.splits)

lemma traced_parseSlot: "parseSlot (traced x) l = parseSlot x l"
  by (rule ext) (simp add: parseSlot_def traced_pure)

text \<open>
  Under \<open>traced\<close> the body of the second loop computes the same outcome and the same
  world, and appends only auth chain calls and strict state calls to the log.
\<close>

lemma verifySlot_cases:
  assumes "VerifyEventAuthChain x ctx (Headered x event (roomVer l)) (provider l) w = (e1, w1)"
    and "VerifyAuthRulesAtState x ctx (stateProvider l) (Headered x event (roomVer l))
           (EventID x (Headered x event (roomVer l))) True w1 = (e2, w2)"
  shows "verifySlot x l ctx event failure r w =
     (if failure \<noteq> None \<and> Error r = None
      then (\<lparr>Event = None, Error = failure, SoftFail = False\<rparr>, w)
      else if e1 \<noteq> None \<and> Error r = None
      then (\<lparr>Event = None, Error = e1, SoftFail = False\<rparr>, w1)
      else if e2 \<noteq> None \<and> Error r = None
      then (\<lparr>Event = None, Error = e2, SoftFail = False\<rparr>, w2)
      else (\<lparr>Event = Some (Headered x event (roomVer l)), Error = None, SoftFail = False\<rparr>, w2))"
  using assms by (simp add: verifySlot_def Let_def)

lemma traced_verifySlot:
  "\<exists>ext. verifySlot (traced x) l ctx event failure r (w, log) =
           (fst (verifySlot x l ctx event failure r w),
            snd (verifySlot x l ctx event failure r w), log @ ext) \<and>
         list_all perEventCall ext"
proof -
  let ?h = "Headered x event (roomVer l)"
  let ?c = "ChainCall ctx ?h (provider l)"
  let ?s = "StateCall ctx (stateProvider l) ?h (EventID x ?h) True"
  obtain e1 w1 where c: "VerifyEventAuthChain x ctx ?h (provider l) w = (e1, w1)"
    by (cases "VerifyEventAuthChain x ctx ?h (provider l) w")
  obtain e2 w2 where s:
    "VerifyAuthRulesAtState x ctx (stateProvider l) ?h (EventID x ?h) True w1 = (e2, w2)"
    by (cases "VerifyAuthRulesAtState x ctx (stateProvider l) ?h (EventID x ?h) True w1")
  have c': "VerifyEventAuthChain (traced x) ctx (Headered (traced x) event (roomVer l)) (provider l)
      (w, log) = (e1, (w1, log @ [?c]))"
    using c by (simp add: traced_pure traced_calls)
  have s': "VerifyAuthRulesAtState (traced x) ctx (stateProvider l)
      (Headered (traced x) event (roomVer l))
      (EventID (traced x) (Headered (traced x) event (roomVer l))) True (w1, log @ [?c]) =
      (e2, (w2, log @ [?c, ?s]))"
    using s by (simp add: traced_pure traced_calls)
  have plain: "verifySlot x l ctx event failure r w =
     (if failure \<noteq> None \<and> Error r = None
      then (\<lparr>Event = None, Error = failure, SoftFail = False\<rparr>, w)
      else if e1 \<noteq> None \<and> Error r = None
      then (\<lparr>Event = None, Error = e1, SoftFail = False\<rparr>, w1)
      else if e2 \<noteq> None \<and> Error r = None
      then (\<lparr>Event = None, Error = e2, SoftFail = False\<rparr>, w2)
      else (\<lparr>Event = Some ?h, Error = None, SoftFail = False\<rparr>, w2))"
    using verifySlot_cases [OF c s] .
  have logged: "verifySlot (traced x) l ctx event failure r (w, log) =
     (if failure \<noteq> None \<and> Error r = None
      then (\<lparr>Event = None, Error = failure, SoftFail = False\<rparr>, (w, log))
      else if e1 \<noteq> None \<and> Error r = None
      then (\<lparr>Event = None, Error = e1, SoftFail = False\<rparr>, (w1, log @ [?c]))
      else if e2 \<noteq> None \<and> Error r = None
      then (\<lparr>Event = None, Error = e2, SoftFail = False\<rparr>, (w2, log @ [?c, ?s]))
      else (\<lparr>Event = Some ?h, Error = None, SoftFail = False\<rparr>, (w2, log @ [?c, ?s])))"
    using verifySlot_cases [OF c' s', of failure r] by (simp add: traced_pure)
  consider (sig) "failure \<noteq> None \<and> Error r = None"
    | (chain) "\<not> (failure \<noteq> None \<and> Error r = None)" "e1 \<noteq> None \<and> Error r = None"
    | (state) "\<not> (failure \<noteq> None \<and> Error r = None)" "\<not> (e1 \<noteq> None \<and> Error r = None)"
    by blast
  then show ?thesis
  proof cases
    case sig
    then have "verifySlot (traced x) l ctx event failure r (w, log) =
           (fst (verifySlot x l ctx event failure r w),
            snd (verifySlot x l ctx event failure r w), log @ [])"
      unfolding plain logged by auto
    then show ?thesis by (intro exI [of _ "[]"]) simp
  next
    case chain
    then have "verifySlot (traced x) l ctx event failure r (w, log) =
           (fst (verifySlot x l ctx event failure r w),
            snd (verifySlot x l ctx event failure r w), log @ [?c])"
      unfolding plain logged by auto
    then show ?thesis by (intro exI [of _ "[?c]"]) simp
  next
    case state
    then have "verifySlot (traced x) l ctx event failure r (w, log) =
           (fst (verifySlot x l ctx event failure r w),
            snd (verifySlot x l ctx event failure r w), log @ [?c, ?s])"
      unfolding plain logged by auto
    then show ?thesis by (intro exI [of _ "[?c, ?s]"]) simp
  qed
qed

lemma traced_verify_fold:
  "\<exists>ext. fold (verifyOne (traced x) l ctx events failures) is (rs, (w, log)) =
           (fst (fold (verifyOne x l ctx events failures) is (rs, w)),
            snd (fold (verifyOne x l ctx events failures) is (rs, w)), log @ ext) \<and>
         list_all perEventCall ext"
proof (induction "is" arbitrary: rs w log)
  case Nil
  show ?case by (intro exI [of _ "[]"]) simp
next
  case (Cons i "is")
  let ?r = "verifySlot x l ctx (events ! i) (failures ! i) (rs ! i) w"
  obtain ext1 where one:
    "verifySlot (traced x) l ctx (events ! i) (failures ! i) (rs ! i) (w, log) =
       (fst ?r, snd ?r, log @ ext1)" "list_all perEventCall ext1"
    using traced_verifySlot [of x l ctx "events ! i" "failures ! i" "rs ! i" w log] by blast
  obtain ext2 where rest:
    "fold (verifyOne (traced x) l ctx events failures) is (rs[i := fst ?r], (snd ?r, log @ ext1)) =
       (fst (fold (verifyOne x l ctx events failures) is (rs[i := fst ?r], snd ?r)),
        snd (fold (verifyOne x l ctx events failures) is (rs[i := fst ?r], snd ?r)),
        (log @ ext1) @ ext2)" "list_all perEventCall ext2"
    using Cons [of "rs[i := fst ?r]" "snd ?r" "log @ ext1"] by blast
  show ?case
    using one rest by (intro exI [of _ "ext1 @ ext2"]) (simp add: verifyOne_slot)
qed

lemma traced_sigCall:
  "sigCall (traced x) l ctx rawEvents (w, log) =
     (fst (sigCall x l ctx rawEvents w), snd (sigCall x l ctx rawEvents w),
      log @ [SigCall ctx (map (eventOrZero x l) rawEvents) (keyRing l)])"
  by (simp add: sigCall_def traced_calls traced_eventOrZero)

text \<open>
  A traced run returns what the run returns, and its log is the signature call on the
  events of the first loop followed by calls of the second loop.
\<close>

lemma traced_LoadAndVerify:
  "\<exists>ext. LoadAndVerify (traced x) l ctx rawEvents (w, log) =
           (fst (LoadAndVerify x l ctx rawEvents w), snd (LoadAndVerify x l ctx rawEvents w),
            log @ SigCall ctx (map (eventOrZero x l) rawEvents) (keyRing l) # ext) \<and>
         list_all perEventCall ext"
proof (cases "fst (sigCall x l ctx rawEvents w)")
  case (Inl err)
  then have "LoadAndVerify (traced x) l ctx rawEvents (w, log) =
           (fst (LoadAndVerify x l ctx rawEvents w), snd (LoadAndVerify x l ctx rawEvents w),
            log @ SigCall ctx (map (eventOrZero x l) rawEvents) (keyRing l) # [])"
    by (simp add: LoadAndVerify_unfold traced_sigCall)
  then show ?thesis by (intro exI [of _ "[]"]) simp
next
  case (Inr failures)
  show ?thesis
  proof (cases "length failures = length rawEvents")
    case False
    then have "LoadAndVerify (traced x) l ctx rawEvents (w, log) =
           (fst (LoadAndVerify x l ctx rawEvents w), snd (LoadAndVerify x l ctx rawEvents w),
            log @ SigCall ctx (map (eventOrZero x l) rawEvents) (keyRing l) # [])"
      using Inr by (simp add: LoadAndVerify_unfold traced_sigCall)
    then show ?thesis by (intro exI [of _ "[]"]) simp
  next
    case True
    let ?log = "log @ [SigCall ctx (map (eventOrZero x l) rawEvents) (keyRing l)]"
    obtain ext where e:
      "fold (verifyOne (traced x) l ctx (map (eventOrZero x l) rawEvents) failures)
         [0..<length rawEvents]
         (map (parseSlot x l) rawEvents, (snd (sigCall x l ctx rawEvents w), ?log)) =
       (fst (fold (verifyOne x l ctx (map (eventOrZero x l) rawEvents) failures)
               [0..<length rawEvents] (map (parseSlot x l) rawEvents, snd (sigCall x l ctx rawEvents w))),
        snd (fold (verifyOne x l ctx (map (eventOrZero x l) rawEvents) failures)
               [0..<length rawEvents] (map (parseSlot x l) rawEvents, snd (sigCall x l ctx rawEvents w))),
        ?log @ ext)" "list_all perEventCall ext"
      using traced_verify_fold [of x l ctx "map (eventOrZero x l) rawEvents" failures
          "[0..<length rawEvents]" "map (parseSlot x l) rawEvents"
          "snd (sigCall x l ctx rawEvents w)" ?log] by blast
    have "LoadAndVerify (traced x) l ctx rawEvents (w, log) =
           (fst (LoadAndVerify x l ctx rawEvents w), snd (LoadAndVerify x l ctx rawEvents w),
            log @ SigCall ctx (map (eventOrZero x l) rawEvents) (keyRing l) # ext)"
      using Inr True e(1)
      by (simp add: LoadAndVerify_unfold traced_sigCall traced_eventOrZero traced_parseSlot)
    then show ?thesis using e(2) by blast
  qed
qed

lemma callsOf_shape:
  "\<exists>ext. callsOf x l ctx rawEvents w =
           SigCall ctx (map (eventOrZero x l) rawEvents) (keyRing l) # ext \<and>
         list_all perEventCall ext"
  using traced_LoadAndVerify [of x l ctx rawEvents w "[]"] by (auto simp add: callsOf_def)

lemma perEventCall_not_sig: "list_all perEventCall ext \<Longrightarrow> filter isSigCall ext = []"
proof (induction ext)
  case Nil
  then show ?case by simp
next
  case (Cons c ext)
  then show ?case by (cases c) simp_all
qed


lemma traced_faithful:
  "fst (LoadAndVerify (traced x) l ctx rawEvents (w, log)) = fst (LoadAndVerify x l ctx rawEvents w)"
  "fst (snd (LoadAndVerify (traced x) l ctx rawEvents (w, log))) = snd (LoadAndVerify x l ctx rawEvents w)"
  using traced_LoadAndVerify [of x l ctx rawEvents w log] by auto

lemma parseOne_flag: "parseOne x (l\<lparr>performSoftFailCheck := flag\<rparr>) = parseOne x l"
  by (intro ext) (simp add: parseOne_def split: prod.splits sum.splits)

lemma verifyOne_flag: "verifyOne x (l\<lparr>performSoftFailCheck := flag\<rparr>) = verifyOne x l"
  by (intro ext) (simp add: verifyOne_def Let_def split: prod.splits cong: if_cong)

lemma LoadAndVerify_flag:
  "LoadAndVerify x (l\<lparr>performSoftFailCheck := flag\<rparr>) = LoadAndVerify x l"
  unfolding LoadAndVerify_def parseOne_flag verifyOne_flag
  by (intro ext) (simp split: prod.splits)

lemma outcomeAt_SoftFail: "\<not> SoftFail (outcomeAt x l ctx rawEvents w i)"
  by (simp add: outcomeAt_verdicts)

section \<open>Concrete runs\<close>

lemmas stub_defs = stubExternals_def stubShort_def stubLoader_def NewEventsLoader_def

lemmas run_defs = LoadAndVerify_def parseOne_def verifyOne_def zeroResult_def

lemmas at_defs = stateCallAt_def chainCallAt_def headerAt_def worldBefore_def sigCall_def
  sigVerdicts_def eventOrZero_def

section \<open>Properties of the call\<close>

text \<open>
  Claim C1. A call on \<open>N\<close> raw messages (\<open>N = 0\<close> included) returns either an error
  and no outcomes, or exactly \<open>N\<close> outcomes, and then the outcome at index \<open>i\<close> is the
  one the checks produced for the raw message at index \<open>i\<close>: the loop body run on
  that message's event and parse result and on the \<open>i\<close>-th signature verdict.
\<close>

theorem LoadAndVerify_length_and_order:
  "(\<exists>err. fst (LoadAndVerify x l ctx rawEvents w) = Inl err) \<or>
   (\<exists>results. fst (LoadAndVerify x l ctx rawEvents w) = Inr results \<and>
      length results = length rawEvents \<and>
      (\<forall>i<length rawEvents. results ! i = outcomeAt x l ctx rawEvents w i))"
proof (cases "fst (LoadAndVerify x l ctx rawEvents w)")
  case (Inl err)
  then show ?thesis by simp
next
  case (Inr results)
  then obtain failures where
    "fst (sigCall x l ctx rawEvents w) = Inr failures" "length failures = length rawEvents"
    using LoadAndVerify_Inr_iff [of x l ctx rawEvents w] by auto
  then show ?thesis
    using LoadAndVerify_results [of x l ctx rawEvents w failures] by blast
qed

theorem LoadAndVerify_length_and_order_witness:
  "fst (LoadAndVerify stubExternals stubLoader 100 [''!'', ''u'', ''c'', ''s'', ''a''] 0) =
     Inr [\<lparr>Event = Some (''6'', ''''), Error = None, SoftFail = False\<rparr>,
          \<lparr>Event = None, Error = Some BadSignature, SoftFail = False\<rparr>,
          \<lparr>Event = None, Error = Some NotAuthorised, SoftFail = False\<rparr>,
          \<lparr>Event = None, Error = Some StateForbids, SoftFail = False\<rparr>,
          \<lparr>Event = Some (''6'', ''a''), Error = None, SoftFail = False\<rparr>] \<and>
   outcomeAt stubExternals stubLoader 100 [''!'', ''u'', ''c'', ''s'', ''a''] 0 3 =
     \<lparr>Event = None, Error = Some StateForbids, SoftFail = False\<rparr> \<and>
   fst (LoadAndVerify stubExternals stubLoader 100 [] 0) = Inr []"
proof -
  let ?raws = "[''!'', ''u'', ''c'', ''s'', ''a'']"
  let ?rs = "[\<lparr>Event = Some (''6'', ''''), Error = None, SoftFail = False\<rparr>,
          \<lparr>Event = None, Error = Some BadSignature, SoftFail = False\<rparr>,
          \<lparr>Event = None, Error = Some NotAuthorised, SoftFail = False\<rparr>,
          \<lparr>Event = None, Error = Some StateForbids, SoftFail = False\<rparr>,
          \<lparr>Event = Some (''6'', ''a''), Error = None, SoftFail = False\<rparr>]"
  have run: "fst (LoadAndVerify stubExternals stubLoader 100 ?raws 0) = Inr ?rs"
    by (simp add: run_defs stub_defs)
  have "\<forall>i<length ?raws. ?rs ! i = outcomeAt stubExternals stubLoader 100 ?raws 0 i"
    using LoadAndVerify_length_and_order [of stubExternals stubLoader 100 ?raws 0] run by simp
  then have "3 < length ?raws \<longrightarrow> ?rs ! 3 = outcomeAt stubExternals stubLoader 100 ?raws 0 3"
    by (rule spec)
  then have "?rs ! 3 = outcomeAt stubExternals stubLoader 100 ?raws 0 3"
    by simp
  moreover have "fst (LoadAndVerify stubExternals stubLoader 100 [] 0) = Inr []"
    using LoadAndVerify_length_and_order [of stubExternals stubLoader 100 "[]" 0]
    by (simp add: run_defs stub_defs)
  ultimately show ?thesis using run by simp
qed

text \<open>
  Claim C2, at a failing input. The only message does not parse, so the first loop
  stores \<open>ParseFailed\<close> at position 0 and the signature check rejects the zero
  event. In the second loop \<^verbatim>\<open>results[0].Error\<close> is already set, so none of the
  three \<^verbatim>\<open>continue\<close> statements is reached and line 96 overwrites the parse error
  with an accepted event, the headered zero event. Lemma \<open>parse_failure_outcome\<close>
  shows this for every position that fails parsing; a position that parses does keep
  its first error (lemma \<open>first_error_wins_when_parsed\<close>).
\<close>

theorem parse_error_replaced_by_accepted_event:
  "NewEventFromUntrustedJSON stubExternals ''!'' (roomVer stubLoader) = Inl ParseFailed \<and>
   sigCall stubExternals stubLoader 100 [''!''] 0 = (Inr [Some BadSignature], 1) \<and>
   fst (LoadAndVerify stubExternals stubLoader 100 [''!''] 0) =
     Inr [\<lparr>Event = Some (''6'', ''''), Error = None, SoftFail = False\<rparr>]"
  by (simp add: run_defs sigCall_def eventOrZero_def stub_defs)

text \<open>
  Claim C3. When the batched signature check returns an error, or a list of verdicts
  whose length is not the number of events it was given, the call returns an error
  and no outcomes: the collaborator's error in the first case, the length mismatch
  in the second (three events and two verdicts in the concrete run).
\<close>

theorem signature_batch_failure_aborts:
  assumes "(\<exists>err. fst (sigCall x l ctx rawEvents w) = Inl err) \<or>
           (\<exists>failures. fst (sigCall x l ctx rawEvents w) = Inr failures \<and>
              length failures \<noteq> length rawEvents)"
  shows "fst (LoadAndVerify x l ctx rawEvents w) =
           Inl (case fst (sigCall x l ctx rawEvents w) of
                  Inl err \<Rightarrow> Collaborator err
                | Inr failures \<Rightarrow> LengthMismatch (length failures) (length rawEvents))"
  using assms by (auto simp add: LoadAndVerify_unfold)

theorem signature_batch_failure_aborts_witness:
  "fst (sigCall stubShort stubLoader 100 [''a'', ''b'', ''c''] 0) = Inr [None, None] \<and>
   fst (LoadAndVerify stubShort stubLoader 100 [''a'', ''b'', ''c''] 0) = Inl (LengthMismatch 2 3) \<and>
   fst (sigCall stubExternals stubLoader 0 [''a''] 0) = Inl Canceled \<and>
   fst (LoadAndVerify stubExternals stubLoader 0 [''a''] 0) = Inl (Collaborator Canceled)"
proof -
  have a: "fst (sigCall stubShort stubLoader 100 [''a'', ''b'', ''c''] 0) = Inr [None, None]"
    by (simp add: sigCall_def eventOrZero_def stub_defs)
  have b: "fst (sigCall stubExternals stubLoader 0 [''a''] 0) = Inl Canceled"
    by (simp add: sigCall_def eventOrZero_def stub_defs)
  show ?thesis
    using a b
      signature_batch_failure_aborts [of stubShort stubLoader 100 "[''a'', ''b'', ''c'']" 0]
      signature_batch_failure_aborts [of stubExternals stubLoader 0 "[''a'']" 0]
    by simp
qed

text \<open>
  Claim C4 as stated fails. With deadline 1 the context is cancelled while the auth
  chain check of position 0 runs, with deadline 2 while its state check runs; the
  check returns \<open>Canceled\<close>, and the call returns a complete outcome list and no
  error.
\<close>

theorem cancellation_after_signatures_returns_outcomes:
  "fst (chainCallAt stubExternals stubLoader 1 [''a''] 0 0) = Some Canceled \<and>
   fst (LoadAndVerify stubExternals stubLoader 1 [''a''] 0) =
     Inr [\<lparr>Event = None, Error = Some Canceled, SoftFail = False\<rparr>] \<and>
   fst (stateCallAt stubExternals stubLoader 2 [''a''] 0 0) = Some Canceled \<and>
   fst (LoadAndVerify stubExternals stubLoader 2 [''a''] 0) =
     Inr [\<lparr>Event = None, Error = Some Canceled, SoftFail = False\<rparr>]"
  by (simp add: run_defs at_defs stub_defs)

text \<open>
  Claim C4, amended. An error that the signature check returns, as it does when the
  context is cancelled while it runs, fails the whole call with that error. An error
  that the auth chain check or the state check returns for a position that parsed and
  passed the checks before it, a cancellation included, does not fail the call: the
  call returns one outcome per message, and the error is the outcome of that position.
\<close>

theorem cancellation_fails_the_call_only_in_the_signature_check:
  "(fst (sigCall x l ctx rawEvents w) = Inl err \<longrightarrow>
      fst (LoadAndVerify x l ctx rawEvents w) = Inl (Collaborator err)) \<and>
   (fst (sigCall x l ctx rawEvents w) = Inr failures \<and> length failures = length rawEvents \<and>
    i < length rawEvents \<and> NewEventFromUntrustedJSON x (rawEvents ! i) (roomVer l) = Inr event \<and>
    failures ! i = None \<and>
    (fst (chainCallAt x l ctx rawEvents w i) = Some err \<or>
     fst (chainCallAt x l ctx rawEvents w i) = None \<and> fst (stateCallAt x l ctx rawEvents w i) = Some err) \<longrightarrow>
      (\<exists>results. fst (LoadAndVerify x l ctx rawEvents w) = Inr results \<and>
         length results = length rawEvents \<and>
         results ! i = \<lparr>Event = None, Error = Some err, SoftFail = False\<rparr>))"
proof (intro conjI impI)
  assume "fst (sigCall x l ctx rawEvents w) = Inl err"
  then show "fst (LoadAndVerify x l ctx rawEvents w) = Inl (Collaborator err)"
    by (simp add: LoadAndVerify_sig_error)
next
  assume h: "fst (sigCall x l ctx rawEvents w) = Inr failures \<and> length failures = length rawEvents \<and>
    i < length rawEvents \<and> NewEventFromUntrustedJSON x (rawEvents ! i) (roomVer l) = Inr event \<and>
    failures ! i = None \<and>
    (fst (chainCallAt x l ctx rawEvents w i) = Some err \<or>
     fst (chainCallAt x l ctx rawEvents w i) = None \<and> fst (stateCallAt x l ctx rawEvents w i) = Some err)"
  then obtain results where r: "fst (LoadAndVerify x l ctx rawEvents w) = Inr results"
      "length results = length rawEvents" "results ! i = outcomeAt x l ctx rawEvents w i"
    using LoadAndVerify_results [of x l ctx rawEvents w failures] by auto
  have sv: "sigVerdicts x l ctx rawEvents w ! i = None"
    using h by (simp add: sigVerdicts_def)
  have ok: "Error (parseSlot x l (rawEvents ! i)) = None"
    using h by (simp add: parseSlot_Error)
  have "outcomeAt x l ctx rawEvents w i = \<lparr>Event = None, Error = Some err, SoftFail = False\<rparr>"
    using h sv ok by (auto simp add: outcomeAt_verdicts)
  then show "\<exists>results. fst (LoadAndVerify x l ctx rawEvents w) = Inr results \<and>
         length results = length rawEvents \<and>
         results ! i = \<lparr>Event = None, Error = Some err, SoftFail = False\<rparr>"
    using r by simp
qed

theorem cancellation_fails_the_call_only_in_the_signature_check_witness:
  "fst (sigCall stubExternals stubLoader 0 [''a''] 0) = Inl Canceled \<and>
   fst (LoadAndVerify stubExternals stubLoader 0 [''a''] 0) = Inl (Collaborator Canceled) \<and>
   fst (sigCall stubExternals stubLoader 2 [''a''] 0) = Inr [None] \<and>
   fst (chainCallAt stubExternals stubLoader 2 [''a''] 0 0) = None \<and>
   fst (stateCallAt stubExternals stubLoader 2 [''a''] 0 0) = Some Canceled \<and>
   (\<exists>results. fst (LoadAndVerify stubExternals stubLoader 2 [''a''] 0) = Inr results \<and>
      length results = 1 \<and> results ! 0 = \<lparr>Event = None, Error = Some Canceled, SoftFail = False\<rparr>)"
proof -
  have a: "fst (sigCall stubExternals stubLoader 0 [''a''] 0) = Inl Canceled"
    by (simp add: sigCall_def eventOrZero_def stub_defs)
  have b: "fst (LoadAndVerify stubExternals stubLoader 0 [''a''] 0) = Inl (Collaborator Canceled)"
    using a cancellation_fails_the_call_only_in_the_signature_check
      [of stubExternals stubLoader 0 "[''a'']" 0 Canceled]
    by simp
  have c: "fst (sigCall stubExternals stubLoader 2 [''a''] 0) = Inr [None]"
    "NewEventFromUntrustedJSON stubExternals ([''a''] ! 0) (roomVer stubLoader) = Inr ''a''"
    "fst (chainCallAt stubExternals stubLoader 2 [''a''] 0 0) = None"
    "fst (stateCallAt stubExternals stubLoader 2 [''a''] 0 0) = Some Canceled"
    by (simp_all add: at_defs stub_defs)
  have d: "\<exists>results. fst (LoadAndVerify stubExternals stubLoader 2 [''a''] 0) = Inr results \<and>
      length results = 1 \<and> results ! 0 = \<lparr>Event = None, Error = Some Canceled, SoftFail = False\<rparr>"
    using c cancellation_fails_the_call_only_in_the_signature_check
      [of stubExternals stubLoader 2 "[''a'']" 0 Canceled "[None]" 0 "''a''"]
    by simp
  show ?thesis using a b c d by simp
qed

text \<open>
  Claim C5. The flag \<^verbatim>\<open>performSoftFailCheck\<close> changes neither what the call returns nor
  the calls it makes; every state check a run calls has the strictness argument
  \<^verbatim>\<open>true\<close>; and no returned outcome has \<^verbatim>\<open>SoftFail\<close> set.
\<close>

theorem soft_fail_check_not_wired:
  "LoadAndVerify x (l\<lparr>performSoftFailCheck := flag\<rparr>) ctx rawEvents w =
     LoadAndVerify x l ctx rawEvents w \<and>
   callsOf x (l\<lparr>performSoftFailCheck := flag\<rparr>) ctx rawEvents w = callsOf x l ctx rawEvents w \<and>
   (StateCall c sp h eid strict \<in> set (callsOf x l ctx rawEvents w) \<longrightarrow> strict) \<and>
   (fst (LoadAndVerify x l ctx rawEvents w) = Inr results \<and> r \<in> set results \<longrightarrow> \<not> SoftFail r)"
proof (intro conjI impI)
  show "LoadAndVerify x (l\<lparr>performSoftFailCheck := flag\<rparr>) ctx rawEvents w =
     LoadAndVerify x l ctx rawEvents w"
    by (simp add: LoadAndVerify_flag)
  show "callsOf x (l\<lparr>performSoftFailCheck := flag\<rparr>) ctx rawEvents w = callsOf x l ctx rawEvents w"
    by (simp add: callsOf_def LoadAndVerify_flag)
next
  assume a: "StateCall c sp h eid strict \<in> set (callsOf x l ctx rawEvents w)"
  obtain ext where e:
    "callsOf x l ctx rawEvents w = SigCall ctx (map (eventOrZero x l) rawEvents) (keyRing l) # ext"
    "list_all perEventCall ext"
    using callsOf_shape [of x l ctx rawEvents w] by blast
  then have "StateCall c sp h eid strict \<in> set ext"
    using a by simp
  then have "perEventCall (StateCall c sp h eid strict)"
    using e(2) by (auto simp add: list_all_iff)
  then show strict by simp
next
  assume a: "fst (LoadAndVerify x l ctx rawEvents w) = Inr results \<and> r \<in> set results"
  then obtain i where i: "i < length results" "r = results ! i"
    by (auto simp add: in_set_conv_nth)
  have "r = outcomeAt x l ctx rawEvents w i"
    using a i LoadAndVerify_Inr_nth(1) [of x l ctx rawEvents w results]
      LoadAndVerify_Inr_nth(2) [of x l ctx rawEvents w results i] by simp
  then show "\<not> SoftFail r"
    by (simp add: outcomeAt_SoftFail)
qed

theorem soft_fail_check_not_wired_witness:
  "callsOf stubExternals (stubLoader\<lparr>performSoftFailCheck := True\<rparr>) 100 [''a''] 0 =
     [SigCall 100 [''a''] (), ChainCall 100 (''6'', ''a'') (),
      StateCall 100 () (''6'', ''a'') ''$a'' True] \<and>
   fst (LoadAndVerify stubExternals (stubLoader\<lparr>performSoftFailCheck := True\<rparr>) 100 [''a''] 0) =
     Inr [\<lparr>Event = Some (''6'', ''a''), Error = None, SoftFail = False\<rparr>] \<and>
   SoftFail \<lparr>Event = Some (''6'', ''a''), Error = None :: stub_error option, SoftFail = False\<rparr> = False \<and>
   LoadAndVerify stubExternals (stubLoader\<lparr>performSoftFailCheck := True\<rparr>) 100 [''a''] 0 =
     LoadAndVerify stubExternals (stubLoader\<lparr>performSoftFailCheck := False\<rparr>) 100 [''a''] 0"
proof -
  let ?l = "stubLoader\<lparr>performSoftFailCheck := True\<rparr>"
  let ?r = "\<lparr>Event = Some (''6'', ''a''), Error = None :: stub_error option, SoftFail = False\<rparr>"
  have calls: "callsOf stubExternals ?l 100 [''a''] 0 =
     [SigCall 100 [''a''] (), ChainCall 100 (''6'', ''a'') (),
      StateCall 100 () (''6'', ''a'') ''$a'' True]"
    by code_simp
  have run: "fst (LoadAndVerify stubExternals ?l 100 [''a''] 0) = Inr [?r]"
    by code_simp
  have mem: "StateCall 100 () (''6'', ''a'') ''$a'' True \<in> set (callsOf stubExternals ?l 100 [''a''] 0)"
    using calls by simp
  have "LoadAndVerify stubExternals (?l\<lparr>performSoftFailCheck := False\<rparr>) 100 [''a''] 0 =
      LoadAndVerify stubExternals ?l 100 [''a''] 0 \<and> \<not> SoftFail ?r"
    using soft_fail_check_not_wired
      [where x = stubExternals and l = ?l and flag = False and ctx = 100 and rawEvents = "[''a'']"
        and w = 0 and c = 100 and sp = "()" and h = "(''6'', ''a'')" and eid = "''$a''"
        and strict = True and results = "[?r]" and r = ?r]
      mem run
    by simp
  then show ?thesis using calls run by simp
qed

text \<open>
  Claim C6. Rejections of single events never abort the call. Whatever the parser
  returns for each message, whatever verdicts the signature check lists and whatever
  the auth chain and state checks return, once the signature check has returned a
  list of the right length the call returns one outcome per message, each produced
  by the loop body for its own position. The call returns an error only when the
  signature check returned an error or a list of the wrong length.
\<close>

theorem rejections_never_abort:
  "(fst (sigCall x l ctx rawEvents w) = Inr failures \<and> length failures = length rawEvents \<longrightarrow>
      (\<exists>results. fst (LoadAndVerify x l ctx rawEvents w) = Inr results \<and>
         length results = length rawEvents \<and>
         (\<forall>i<length rawEvents. results ! i = outcomeAt x l ctx rawEvents w i))) \<and>
   (fst (LoadAndVerify x l ctx rawEvents w) = Inl err \<longrightarrow>
      (\<exists>e. fst (sigCall x l ctx rawEvents w) = Inl e \<and> err = Collaborator e) \<or>
      (\<exists>failures. fst (sigCall x l ctx rawEvents w) = Inr failures \<and>
         length failures \<noteq> length rawEvents \<and>
         err = LengthMismatch (length failures) (length rawEvents)))"
proof (intro conjI impI)
  assume "fst (sigCall x l ctx rawEvents w) = Inr failures \<and> length failures = length rawEvents"
  then show "\<exists>results. fst (LoadAndVerify x l ctx rawEvents w) = Inr results \<and>
         length results = length rawEvents \<and>
         (\<forall>i<length rawEvents. results ! i = outcomeAt x l ctx rawEvents w i)"
    using LoadAndVerify_results [of x l ctx rawEvents w failures] by simp
next
  assume "fst (LoadAndVerify x l ctx rawEvents w) = Inl err"
  then show "(\<exists>e. fst (sigCall x l ctx rawEvents w) = Inl e \<and> err = Collaborator e) \<or>
      (\<exists>failures. fst (sigCall x l ctx rawEvents w) = Inr failures \<and>
         length failures \<noteq> length rawEvents \<and>
         err = LengthMismatch (length failures) (length rawEvents))"
    by (cases "fst (sigCall x l ctx rawEvents w)")
      (auto simp add: LoadAndVerify_unfold split: if_splits)
qed

theorem rejections_never_abort_witness:
  "fst (sigCall stubExternals stubLoader 100 [''!'', ''u'', ''c'', ''s'', ''a''] 0) =
     Inr [Some BadSignature, Some BadSignature, None, None, None] \<and>
   (\<exists>results. fst (LoadAndVerify stubExternals stubLoader 100 [''!'', ''u'', ''c'', ''s'', ''a''] 0) =
      Inr results \<and> length results = 5) \<and>
   fst (LoadAndVerify stubExternals stubLoader 0 [''a''] 0) = Inl (Collaborator Canceled) \<and>
   fst (sigCall stubExternals stubLoader 0 [''a''] 0) = Inl Canceled"
proof -
  let ?raws = "[''!'', ''u'', ''c'', ''s'', ''a'']"
  let ?fs = "[Some BadSignature, Some BadSignature, None, None, None]"
  have a: "fst (sigCall stubExternals stubLoader 100 ?raws 0) = Inr ?fs \<and> length ?fs = length ?raws"
    by (simp add: sigCall_def eventOrZero_def stub_defs)
  have b: "\<exists>results. fst (LoadAndVerify stubExternals stubLoader 100 ?raws 0) = Inr results \<and>
      length results = 5"
    using a rejections_never_abort [of stubExternals stubLoader 100 ?raws 0 ?fs, THEN conjunct1]
    by auto
  have c: "fst (LoadAndVerify stubExternals stubLoader 0 [''a''] 0) = Inl (Collaborator Canceled)"
    by (simp add: run_defs stub_defs)
  have d: "fst (sigCall stubExternals stubLoader 0 [''a''] 0) = Inl Canceled"
    using c rejections_never_abort
      [of stubExternals stubLoader 0 "[''a'']" 0 "[]" "Collaborator Canceled", THEN conjunct2]
    by auto
  show ?thesis using a b c d by simp
qed

text \<open>
  Claim C7. The calls of a run contain exactly one signature call. Its batch has one
  event per raw message, in order: the zero event where the message failed parsing,
  the parsed event elsewhere.
\<close>

theorem signature_check_called_once_on_aligned_batch:
  "\<exists>events. filter isSigCall (callsOf x l ctx rawEvents w) = [SigCall ctx events (keyRing l)] \<and>
      length events = length rawEvents \<and>
      (\<forall>i<length rawEvents.
         events ! i = (case NewEventFromUntrustedJSON x (rawEvents ! i) (roomVer l) of
                         Inl err \<Rightarrow> zeroEvent x
                       | Inr event \<Rightarrow> event))"
proof -
  obtain ext where e:
    "callsOf x l ctx rawEvents w = SigCall ctx (map (eventOrZero x l) rawEvents) (keyRing l) # ext"
    "list_all perEventCall ext"
    using callsOf_shape [of x l ctx rawEvents w] by blast
  have "filter isSigCall (callsOf x l ctx rawEvents w) =
      [SigCall ctx (map (eventOrZero x l) rawEvents) (keyRing l)]"
    using e by (simp add: perEventCall_not_sig)
  then show ?thesis
    by (intro exI [of _ "map (eventOrZero x l) rawEvents"]) (simp add: eventOrZero_def)
qed

theorem signature_check_called_once_on_aligned_batch_witness:
  "filter isSigCall (callsOf stubExternals stubLoader 100 [''a'', ''!'', ''c''] 0) =
     [SigCall 100 [''a'', '''', ''c''] ()] \<and>
   NewEventFromUntrustedJSON stubExternals ([''a'', ''!'', ''c''] ! 1) (roomVer stubLoader) =
     Inl ParseFailed \<and>
   [''a'', '''', ''c''] ! 1 = zeroEvent stubExternals \<and>
   length [''a'', '''', ''c''] = length [''a'', ''!'', ''c'']"
proof -
  let ?raws = "[''a'', ''!'', ''c'']"
  have calls: "filter isSigCall (callsOf stubExternals stubLoader 100 ?raws 0) =
      [SigCall 100 [''a'', '''', ''c''] ()]"
    by code_simp
  have bad: "NewEventFromUntrustedJSON stubExternals (?raws ! 1) (roomVer stubLoader) = Inl ParseFailed"
    by (simp add: stub_defs)
  obtain events where e:
    "filter isSigCall (callsOf stubExternals stubLoader 100 ?raws 0) =
       [SigCall 100 events (keyRing stubLoader)]"
    "length events = length ?raws"
    "\<forall>i<length ?raws.
       events ! i = (case NewEventFromUntrustedJSON stubExternals (?raws ! i) (roomVer stubLoader) of
                       Inl err \<Rightarrow> zeroEvent stubExternals
                     | Inr event \<Rightarrow> event)"
    using signature_check_called_once_on_aligned_batch [of stubExternals stubLoader 100 ?raws 0]
    by blast
  have ev: "events = [''a'', '''', ''c'']"
    using e(1) calls by simp
  have "1 < length ?raws \<longrightarrow>
      events ! 1 = (case NewEventFromUntrustedJSON stubExternals (?raws ! 1) (roomVer stubLoader) of
                       Inl err \<Rightarrow> zeroEvent stubExternals
                     | Inr event \<Rightarrow> event)"
    using e(3) by (rule spec)
  then have "[''a'', '''', ''c''] ! 1 = zeroEvent stubExternals"
    using bad ev by simp
  then show ?thesis using calls bad e(2) ev by simp
qed

text \<open>
  Claim C8. Take a batch and the same batch with the message at position \<open>k\<close>
  replaced by another one (a malformed one, say), run with the same parser and the
  same loader, with verifiers that may behave differently. If both runs return
  outcomes, then at every other position \<open>j\<close> where the signature, auth chain and
  state verdicts of the two runs agree, the two outcomes are equal: nothing that
  happens at position \<open>k\<close> reaches position \<open>j\<close>.
\<close>

theorem failure_at_one_position_leaves_the_others:
  assumes "NewEventFromUntrustedJSON x' = NewEventFromUntrustedJSON x"
    and "Headered x' = Headered x"
    and "zeroEvent x' = zeroEvent x"
    and "fst (LoadAndVerify x l ctx rawEvents w) = Inr results"
    and "fst (LoadAndVerify x' l ctx' (rawEvents[k := malformed]) w') = Inr results'"
    and "j < length rawEvents"
    and "j \<noteq> k"
    and "sigVerdicts x' l ctx' (rawEvents[k := malformed]) w' ! j = sigVerdicts x l ctx rawEvents w ! j"
    and "fst (chainCallAt x' l ctx' (rawEvents[k := malformed]) w' j) =
         fst (chainCallAt x l ctx rawEvents w j)"
    and "fst (stateCallAt x' l ctx' (rawEvents[k := malformed]) w' j) =
         fst (stateCallAt x l ctx rawEvents w j)"
  shows "results' ! j = results ! j"
proof -
  have same: "rawEvents[k := malformed] ! j = rawEvents ! j"
    using assms(7) by simp
  have a: "results ! j = outcomeAt x l ctx rawEvents w j"
    using LoadAndVerify_Inr_nth(2) [OF assms(4) assms(6)] .
  have b: "results' ! j = outcomeAt x' l ctx' (rawEvents[k := malformed]) w' j"
    using LoadAndVerify_Inr_nth(2) [OF assms(5), of j] assms(6) by simp
  have "outcomeAt x' l ctx' (rawEvents[k := malformed]) w' j = outcomeAt x l ctx rawEvents w j"
    using assms(1,2,3,8,9,10) same
    by (intro outcomeAt_cong) (simp_all add: headerAt_def eventOrZero_def split: sum.splits)
  then show ?thesis using a b by simp
qed

theorem failure_at_one_position_leaves_the_others_witness:
  "fst (LoadAndVerify stubExternals stubLoader 100 [''a'', ''b'', ''c''] 0) =
     Inr [\<lparr>Event = Some (''6'', ''a''), Error = None, SoftFail = False\<rparr>,
          \<lparr>Event = Some (''6'', ''b''), Error = None, SoftFail = False\<rparr>,
          \<lparr>Event = None, Error = Some NotAuthorised, SoftFail = False\<rparr>] \<and>
   NewEventFromUntrustedJSON stubExternals ''!'' (roomVer stubLoader) = Inl ParseFailed \<and>
   fst (LoadAndVerify stubExternals stubLoader 100 ([''a'', ''b'', ''c''][1 := ''!'']) 0) =
     Inr [\<lparr>Event = Some (''6'', ''a''), Error = None, SoftFail = False\<rparr>,
          \<lparr>Event = Some (''6'', ''''), Error = None, SoftFail = False\<rparr>,
          \<lparr>Event = None, Error = Some NotAuthorised, SoftFail = False\<rparr>] \<and>
   [\<lparr>Event = Some (''6'', ''a''), Error = None, SoftFail = False\<rparr>,
    \<lparr>Event = Some (''6'', ''''), Error = None, SoftFail = False\<rparr>,
    \<lparr>Event = None, Error = Some NotAuthorised, SoftFail = False\<rparr>] ! 2 =
   [\<lparr>Event = Some (''6'', ''a''), Error = None, SoftFail = False\<rparr>,
    \<lparr>Event = Some (''6'', ''b''), Error = None, SoftFail = False\<rparr>,
    \<lparr>Event = None, Error = Some NotAuthorised, SoftFail = False\<rparr>] ! 2"
proof -
  let ?raws = "[''a'', ''b'', ''c'']"
  let ?rs = "[\<lparr>Event = Some (''6'', ''a''), Error = None, SoftFail = False\<rparr>,
          \<lparr>Event = Some (''6'', ''b''), Error = None, SoftFail = False\<rparr>,
          \<lparr>Event = None, Error = Some NotAuthorised, SoftFail = False\<rparr>]"
  let ?rs' = "[\<lparr>Event = Some (''6'', ''a''), Error = None, SoftFail = False\<rparr>,
          \<lparr>Event = Some (''6'', ''''), Error = None, SoftFail = False\<rparr>,
          \<lparr>Event = None, Error = Some NotAuthorised, SoftFail = False\<rparr>]"
  have run: "fst (LoadAndVerify stubExternals stubLoader 100 ?raws 0) = Inr ?rs"
    by (simp add: run_defs stub_defs)
  have run': "fst (LoadAndVerify stubExternals stubLoader 100 (?raws[1 := ''!'']) 0) = Inr ?rs'"
    by (simp add: run_defs stub_defs)
  have bad: "NewEventFromUntrustedJSON stubExternals ''!'' (roomVer stubLoader) = Inl ParseFailed"
    by (simp add: stub_defs)
  have sig: "sigVerdicts stubExternals stubLoader 100 (?raws[1 := ''!'']) 0 ! 2 =
      sigVerdicts stubExternals stubLoader 100 ?raws 0 ! 2"
    by (simp add: sigVerdicts_def sigCall_def eventOrZero_def stub_defs)
  have chain: "fst (chainCallAt stubExternals stubLoader 100 (?raws[1 := ''!'']) 0 2) =
      fst (chainCallAt stubExternals stubLoader 100 ?raws 0 2)"
    by code_simp
  have state: "fst (stateCallAt stubExternals stubLoader 100 (?raws[1 := ''!'']) 0 2) =
      fst (stateCallAt stubExternals stubLoader 100 ?raws 0 2)"
    by code_simp
  have "?rs' ! 2 = ?rs ! 2"
    using failure_at_one_position_leaves_the_others
      [of stubExternals stubExternals stubLoader 100 ?raws 0 ?rs 100 1 "''!''" 0 ?rs' 2]
      run run' sig chain state
    by simp
  then show ?thesis using run run' bad by simp
qed

text \<open>
  Claim C9. Every outcome of a call that returned outcomes has exactly one of the
  fields \<^verbatim>\<open>Event\<close> and \<^verbatim>\<open>Error\<close> set: never both, never neither.
\<close>

theorem exactly_one_of_Event_and_Error:
  assumes "fst (LoadAndVerify x l ctx rawEvents w) = Inr results"
    and "r \<in> set results"
  shows "(Event r \<noteq> None \<and> Error r = None) \<or> (Event r = None \<and> Error r \<noteq> None)"
proof -
  obtain i where i: "i < length results" "r = results ! i"
    using assms(2) by (auto simp add: in_set_conv_nth)
  have "r = outcomeAt x l ctx rawEvents w i"
    using i LoadAndVerify_Inr_nth [OF assms(1)] by simp
  then show ?thesis
    using outcomeAt_one_field [of x l ctx rawEvents w i] by simp
qed

theorem exactly_one_of_Event_and_Error_witness:
  "fst (LoadAndVerify stubExternals stubLoader 100 [''!'', ''u'', ''a''] 0) =
     Inr [\<lparr>Event = Some (''6'', ''''), Error = None, SoftFail = False\<rparr>,
          \<lparr>Event = None, Error = Some BadSignature, SoftFail = False\<rparr>,
          \<lparr>Event = Some (''6'', ''a''), Error = None, SoftFail = False\<rparr>] \<and>
   ((Event \<lparr>Event = None, Error = Some BadSignature, SoftFail = False\<rparr> \<noteq> (None :: (string \<times> string) option) \<and>
     Error \<lparr>Event = None :: (string \<times> string) option, Error = Some BadSignature, SoftFail = False\<rparr> = None) \<or>
    (Event \<lparr>Event = None, Error = Some BadSignature, SoftFail = False\<rparr> = (None :: (string \<times> string) option) \<and>
     Error \<lparr>Event = None :: (string \<times> string) option, Error = Some BadSignature, SoftFail = False\<rparr> \<noteq> None))"
proof -
  let ?rs = "[\<lparr>Event = Some (''6'', ''''), Error = None, SoftFail = False\<rparr>,
          \<lparr>Event = None, Error = Some BadSignature, SoftFail = False\<rparr>,
          \<lparr>Event = Some (''6'', ''a''), Error = None, SoftFail = False\<rparr>]"
  have run: "fst (LoadAndVerify stubExternals stubLoader 100 [''!'', ''u'', ''a''] 0) = Inr ?rs"
    by (simp add: run_defs stub_defs)
  have mem: "\<lparr>Event = None, Error = Some BadSignature, SoftFail = False\<rparr> \<in> set ?rs"
    by simp
  show ?thesis
    using run exactly_one_of_Event_and_Error [OF run mem] by blast
qed

text \<open>
  Claim C10. Two invocations on the same raw messages with the same room version, the
  same parser and header functions, and verifiers that return the same result of the
  signature check and the same auth chain and state verdicts at every position,
  return the same thing: the same error, or the same outcomes in the same positions.
  The contexts, the worlds and the other fields of the loader may differ.
\<close>

theorem LoadAndVerify_deterministic:
  assumes "NewEventFromUntrustedJSON x' = NewEventFromUntrustedJSON x"
    and "Headered x' = Headered x"
    and "zeroEvent x' = zeroEvent x"
    and "roomVer l' = roomVer l"
    and "fst (sigCall x' l' ctx' rawEvents w') = fst (sigCall x l ctx rawEvents w)"
    and "\<forall>i<length rawEvents.
           fst (chainCallAt x' l' ctx' rawEvents w' i) = fst (chainCallAt x l ctx rawEvents w i)"
    and "\<forall>i<length rawEvents.
           fst (stateCallAt x' l' ctx' rawEvents w' i) = fst (stateCallAt x l ctx rawEvents w i)"
  shows "fst (LoadAndVerify x' l' ctx' rawEvents w') = fst (LoadAndVerify x l ctx rawEvents w)"
proof (cases "fst (sigCall x l ctx rawEvents w)")
  case (Inl err)
  then show ?thesis
    using assms(5) by (simp add: LoadAndVerify_sig_error)
next
  case (Inr failures)
  show ?thesis
  proof (cases "length failures = length rawEvents")
    case False
    then show ?thesis
      using Inr assms(5) by (simp add: LoadAndVerify_sig_mismatch)
  next
    case True
    obtain results where r: "fst (LoadAndVerify x l ctx rawEvents w) = Inr results"
      using LoadAndVerify_results [OF Inr True] by blast
    obtain results' where r': "fst (LoadAndVerify x' l' ctx' rawEvents w') = Inr results'"
      using LoadAndVerify_results [of x' l' ctx' rawEvents w' failures] Inr True assms(5) by auto
    have sv: "sigVerdicts x' l' ctx' rawEvents w' = sigVerdicts x l ctx rawEvents w"
      using assms(5) by (simp add: sigVerdicts_def)
    have "results' ! i = results ! i" if i: "i < length rawEvents" for i
    proof -
      have "outcomeAt x' l' ctx' rawEvents w' i = outcomeAt x l ctx rawEvents w i"
        using assms(1,2,3,4,6,7) sv i
        by (intro outcomeAt_cong) (simp_all add: headerAt_def eventOrZero_def split: sum.splits)
      then show ?thesis
        using LoadAndVerify_Inr_nth(2) [OF r i] LoadAndVerify_Inr_nth(2) [OF r' i] by simp
    qed
    then have "results' = results"
      using LoadAndVerify_Inr_nth(1) [OF r] LoadAndVerify_Inr_nth(1) [OF r']
      by (intro nth_equalityI) simp_all
    then show ?thesis using r r' by simp
  qed
qed

theorem LoadAndVerify_deterministic_witness:
  "fst (sigCall stubExternals stubLoader 100 [''!'', ''u'', ''c'', ''s'', ''a''] 8) =
   fst (sigCall stubExternals stubLoader 100 [''!'', ''u'', ''c'', ''s'', ''a''] 0) \<and>
   fst (chainCallAt stubExternals stubLoader 100 [''!'', ''u'', ''c'', ''s'', ''a''] 8 2) =
   fst (chainCallAt stubExternals stubLoader 100 [''!'', ''u'', ''c'', ''s'', ''a''] 0 2) \<and>
   snd (LoadAndVerify stubExternals stubLoader 100 [''!'', ''u'', ''c'', ''s'', ''a''] 0) = 8 \<and>
   fst (LoadAndVerify stubExternals stubLoader 100 [''!'', ''u'', ''c'', ''s'', ''a''] 8) =
   fst (LoadAndVerify stubExternals stubLoader 100 [''!'', ''u'', ''c'', ''s'', ''a''] 0)"
proof -
  let ?raws = "[''!'', ''u'', ''c'', ''s'', ''a'']"
  have sig: "fst (sigCall stubExternals stubLoader 100 ?raws 8) =
      fst (sigCall stubExternals stubLoader 100 ?raws 0)"
    by (simp add: sigCall_def eventOrZero_def stub_defs)
  have chain: "\<forall>i<length ?raws. fst (chainCallAt stubExternals stubLoader 100 ?raws 8 i) =
      fst (chainCallAt stubExternals stubLoader 100 ?raws 0 i)"
  proof -
    have "fst (chainCallAt stubExternals stubLoader 100 ?raws 8 0) =
          fst (chainCallAt stubExternals stubLoader 100 ?raws 0 0)"
      "fst (chainCallAt stubExternals stubLoader 100 ?raws 8 (Suc 0)) =
       fst (chainCallAt stubExternals stubLoader 100 ?raws 0 (Suc 0))"
      "fst (chainCallAt stubExternals stubLoader 100 ?raws 8 (Suc (Suc 0))) =
       fst (chainCallAt stubExternals stubLoader 100 ?raws 0 (Suc (Suc 0)))"
      "fst (chainCallAt stubExternals stubLoader 100 ?raws 8 (Suc (Suc (Suc 0)))) =
       fst (chainCallAt stubExternals stubLoader 100 ?raws 0 (Suc (Suc (Suc 0))))"
      "fst (chainCallAt stubExternals stubLoader 100 ?raws 8 (Suc (Suc (Suc (Suc 0))))) =
       fst (chainCallAt stubExternals stubLoader 100 ?raws 0 (Suc (Suc (Suc (Suc 0)))))"
      by code_simp+
    then show ?thesis by (simp add: All_less_Suc)
  qed
  have state: "\<forall>i<length ?raws. fst (stateCallAt stubExternals stubLoader 100 ?raws 8 i) =
      fst (stateCallAt stubExternals stubLoader 100 ?raws 0 i)"
  proof -
    have "fst (stateCallAt stubExternals stubLoader 100 ?raws 8 0) =
          fst (stateCallAt stubExternals stubLoader 100 ?raws 0 0)"
      "fst (stateCallAt stubExternals stubLoader 100 ?raws 8 (Suc 0)) =
       fst (stateCallAt stubExternals stubLoader 100 ?raws 0 (Suc 0))"
      "fst (stateCallAt stubExternals stubLoader 100 ?raws 8 (Suc (Suc 0))) =
       fst (stateCallAt stubExternals stubLoader 100 ?raws 0 (Suc (Suc 0)))"
      "fst (stateCallAt stubExternals stubLoader 100 ?raws 8 (Suc (Suc (Suc 0)))) =
       fst (stateCallAt stubExternals stubLoader 100 ?raws 0 (Suc (Suc (Suc 0))))"
      "fst (stateCallAt stubExternals stubLoader 100 ?raws 8 (Suc (Suc (Suc (Suc 0))))) =
       fst (stateCallAt stubExternals stubLoader 100 ?raws 0 (Suc (Suc (Suc (Suc 0)))))"
      by code_simp+
    then show ?thesis by (simp add: All_less_Suc)
  qed
  have w: "snd (LoadAndVerify stubExternals stubLoader 100 ?raws 0) = 8"
    by (simp add: run_defs stub_defs)
  have "fst (LoadAndVerify stubExternals stubLoader 100 ?raws 8) =
      fst (LoadAndVerify stubExternals stubLoader 100 ?raws 0)"
    using LoadAndVerify_deterministic
      [of stubExternals stubExternals stubLoader stubLoader 100 ?raws 8 100 0] sig chain state
    by simp
  moreover have "fst (chainCallAt stubExternals stubLoader 100 ?raws 8 2) =
      fst (chainCallAt stubExternals stubLoader 100 ?raws 0 2)"
    by code_simp
  ultimately show ?thesis using sig w by simp
qed

end
